theory Spec2Isabelle
  imports Main "HOL-Library.AList" "HOL-Library.List_Lexorder" "HOL-Library.Multiset"
begin

section \<open>Data model of hikari.py\<close>

text \<open>
  A Python \<open>str\<close> is a sequence of Unicode code points.  A code point is a natural
  number and a string is a list of them; a character of a string (what \<open>for char in word\<close>
  yields) is the string of length one \<open>[c]\<close>.  Strings are compared as Python compares
  them: lexicographically by code point, a proper prefix being smaller, which is the
  order of \<open>HOL-Library.List_Lexorder\<close>.

  A Python \<open>dict\<close> is an association list with distinct keys in insertion order:
  assigning to a key that is present keeps its position, assigning to a new key appends
  it (\<open>AList.update\<close>).  A Python \<open>set\<close> is a HOL set.
\<close>

type_synonym codepoint = nat
type_synonym pystr = "codepoint list"
type_synonym ('k, 'v) pydict = "('k \<times> 'v) list"

text \<open>The only exception the core can raise: \<open>KeyError\<close>, from \<open>related_words[word]\<close>
  and from \<open>rel_words.remove(word)\<close>.\<close>

datatype error = KeyError pystr

section \<open>CharacterClassifier: \<open>has_kanji\<close>\<close>

text \<open>
  \<open>re.search(pattern, word)\<close>, where the pattern is one character class, the range
  from the character U+4E00 (19968) to the character U+9FAF (40879): the search returns
  the first character of \<open>word\<close> in that range, or \<open>None\<close>.
\<close>

definition re_search_kanji :: "pystr \<Rightarrow> codepoint option" where
  "re_search_kanji word = find (\<lambda>c. 0x4E00 \<le> c \<and> c \<le> 0x9FAF) word"

text \<open>\<open>return bool(word and re.search(pattern, word))\<close>\<close>

definition has_kanji :: "pystr \<Rightarrow> bool" where
  "has_kanji word = (word \<noteq> [] \<and> re_search_kanji word \<noteq> None)"

section \<open>ComponentIndexer: \<open>separate_words\<close>\<close>

text \<open>Reading a \<open>defaultdict(set)\<close> at a key: the stored set, or a fresh empty one.\<close>

definition dict_get :: "('k, 'v set) pydict \<Rightarrow> 'k \<Rightarrow> 'v set" where
  "dict_get d k = (case map_of d k of None \<Rightarrow> {} | Some s \<Rightarrow> s)"

text \<open>\<open>components[char].add(word)\<close>\<close>

definition add_word :: "pystr \<Rightarrow> pystr \<Rightarrow> (pystr, pystr set) pydict \<Rightarrow> (pystr, pystr set) pydict" where
  "add_word char word components = AList.update char (insert word (dict_get components char)) components"

text \<open>The inner loop \<open>for char in word\<close>; the first argument is the word, the second the
  characters still to visit.\<close>

fun separate_chars :: "pystr \<Rightarrow> codepoint list \<Rightarrow> (pystr, pystr set) pydict \<Rightarrow> (pystr, pystr set) pydict" where
  "separate_chars word [] components = components"
| "separate_chars word (c # cs) components =
     separate_chars word cs (if has_kanji [c] then add_word [c] word components else components)"

text \<open>The outer loop \<open>for word in words\<close>.\<close>

fun separate_loop :: "pystr list \<Rightarrow> (pystr, pystr set) pydict \<Rightarrow> (pystr, pystr set) pydict" where
  "separate_loop [] components = components"
| "separate_loop (word # words) components = separate_loop words (separate_chars word word components)"

definition separate_words :: "pystr list \<Rightarrow> (pystr, pystr set) pydict" where
  "separate_words words = separate_loop words []"

section \<open>RelationBuilder: \<open>relate_words\<close>\<close>

text \<open>\<open>kanji in word\<close> on strings is the substring test; \<open>str_contains word sub\<close> is
  \<open>sub in word\<close>.\<close>

fun str_contains :: "pystr \<Rightarrow> pystr \<Rightarrow> bool" where
  "str_contains [] sub = (sub = [])"
| "str_contains (c # cs) sub = (take (length sub) (c # cs) = sub \<or> str_contains cs sub)"

text \<open>\<open>{word: set() for word in words}\<close>\<close>

fun init_related :: "pystr list \<Rightarrow> (pystr, pystr set) pydict \<Rightarrow> (pystr, pystr set) pydict" where
  "init_related [] related = related"
| "init_related (word # words) related = init_related words (AList.update word {} related)"

text \<open>The inner loop \<open>for kanji, compounds in components.items()\<close> for one word.
  \<open>related_words[word]\<close> raises \<open>KeyError\<close> on a missing key.\<close>

fun relate_items :: "pystr \<Rightarrow> (pystr, pystr set) pydict \<Rightarrow> (pystr, pystr set) pydict
    \<Rightarrow> error + (pystr, pystr set) pydict" where
  "relate_items word [] related = Inr related"
| "relate_items word ((kanji, compounds) # items) related =
     (if \<not> str_contains word kanji then relate_items word items related
      else case map_of related word of
             None \<Rightarrow> Inl (KeyError word)
           | Some s \<Rightarrow> relate_items word items (AList.update word (s \<union> compounds) related))"

text \<open>The outer loop \<open>for word in words\<close>.\<close>

fun relate_loop :: "pystr list \<Rightarrow> (pystr, pystr set) pydict \<Rightarrow> (pystr, pystr set) pydict
    \<Rightarrow> error + (pystr, pystr set) pydict" where
  "relate_loop [] components related = Inr related"
| "relate_loop (word # words) components related =
     (case relate_items word components related of
        Inl e \<Rightarrow> Inl e
      | Inr related' \<Rightarrow> relate_loop words components related')"

text \<open>The loop \<open>for word, rel_words in related_words.items(): rel_words.remove(word)\<close>;
  \<open>set.remove\<close> raises \<open>KeyError\<close> when the element is absent.\<close>

fun remove_self :: "(pystr, pystr set) pydict \<Rightarrow> error + (pystr, pystr set) pydict" where
  "remove_self [] = Inr []"
| "remove_self ((word, rel_words) # items) =
     (if word \<in> rel_words
      then (case remove_self items of
              Inl e \<Rightarrow> Inl e
            | Inr items' \<Rightarrow> Inr ((word, rel_words - {word}) # items'))
      else Inl (KeyError word))"

text \<open>The dictionary as it stands before the self-links are removed.\<close>

definition accumulate_related :: "pystr list \<Rightarrow> (pystr, pystr set) pydict
    \<Rightarrow> error + (pystr, pystr set) pydict" where
  "accumulate_related words components = relate_loop words components (init_related words [])"

definition relate_words :: "pystr list \<Rightarrow> (pystr, pystr set) pydict
    \<Rightarrow> error + (pystr, pystr set) pydict" where
  "relate_words words components =
     (case accumulate_related words components of
        Inl e \<Rightarrow> Inl e
      | Inr related \<Rightarrow> remove_self related)"

section \<open>The core of \<open>main\<close>\<close>

text \<open>\<open>{k: sorted(list(w)) for k, w in d.items()}\<close>\<close>

definition normalize :: "(pystr, pystr set) pydict \<Rightarrow> (pystr, pystr list) pydict" where
  "normalize d = map (\<lambda>(k, w). (k, sorted_list_of_set w)) d"

text \<open>\<open>main\<close> between reading the words and \<open>save_to_json\<close>: sort the words, build both
  indexes, normalise them.  The result is the pair handed to \<open>save_to_json\<close>.\<close>

definition main_core :: "pystr list \<Rightarrow> error + ((pystr, pystr list) pydict \<times> (pystr, pystr list) pydict)" where
  "main_core words0 =
     (let words = sort words0;
          components = separate_words words
      in case relate_words words components of
           Inl e \<Rightarrow> Inl e
         | Inr related_words \<Rightarrow> Inr (normalize components, normalize related_words))"

section \<open>The relation step as the specification recommends it\<close>

text \<open>
  The specification's strategy, written from its words: for each word, iterate only the
  distinct logographic characters present in it, look each up directly in the component
  index, union the results, then remove the word itself (a removal that cannot fail).
\<close>

definition related_opt :: "pystr \<Rightarrow> (pystr, pystr set) pydict \<Rightarrow> pystr set" where
  "related_opt w components =
     (\<Union>c\<in>set (remdups (filter (\<lambda>c. has_kanji [c]) w)). dict_get components [c]) - {w}"

fun relate_words_opt_loop :: "pystr list \<Rightarrow> (pystr, pystr set) pydict \<Rightarrow> (pystr, pystr set) pydict
    \<Rightarrow> (pystr, pystr set) pydict" where
  "relate_words_opt_loop [] components related = related"
| "relate_words_opt_loop (w # ws) components related =
     relate_words_opt_loop ws components (AList.update w (related_opt w components) related)"

definition relate_words_opt :: "pystr list \<Rightarrow> (pystr, pystr set) pydict \<Rightarrow> (pystr, pystr set) pydict" where
  "relate_words_opt words components = relate_words_opt_loop words components []"


section \<open>The words of the docstring's example\<close>

abbreviation (input) kesa :: pystr where "kesa \<equiv> [0x4ECA, 0x671D]"
abbreviation (input) konban :: pystr where "konban \<equiv> [0x4ECA, 0x6669]"
abbreviation (input) choshoku :: pystr where "choshoku \<equiv> [0x671D, 0x98DF]"
abbreviation (input) taberu :: pystr where "taberu \<equiv> [0x98DF, 0x3079, 0x308B]"
abbreviation (input) tanoshii :: pystr where "tanoshii \<equiv> [0x697D, 0x3057, 0x3044]"

text \<open>A word of kana only, with no logographic character.\<close>

abbreviation (input) kana :: pystr where "kana \<equiv> [0x304B, 0x306A]"


section \<open>Classification\<close>

lemma re_search_kanji_None: "re_search_kanji w = None \<longleftrightarrow> (\<forall>c\<in>set w. \<not> (19968 \<le> c \<and> c \<le> 40879))"
  by (auto simp: re_search_kanji_def find_None_iff)

lemma has_kanji_iff: "has_kanji w \<longleftrightarrow> (\<exists>c\<in>set w. 19968 \<le> c \<and> c \<le> 40879)"
  by (auto simp: has_kanji_def re_search_kanji_None)

lemma has_kanji_char: "has_kanji [c] \<longleftrightarrow> 19968 \<le> c \<and> c \<le> 40879"
  by (simp add: has_kanji_iff)

lemma has_kanji_set: "has_kanji w \<longleftrightarrow> (\<exists>c\<in>set w. has_kanji [c])"
  by (simp add: has_kanji_iff)

section \<open>Facts about \<open>separate_words\<close>\<close>

lemma str_contains_char: "str_contains w [c] \<longleftrightarrow> c \<in> set w"
  by (induction w) auto

lemma map_of_dict_get: "map_of d k = (if k \<in> fst ` set d then Some (dict_get d k) else None)"
  by (auto simp: dict_get_def map_of_eq_None_iff[symmetric] simp del: map_of_eq_None_iff split: option.splits)

lemma dict_get_add_word:
  "dict_get (add_word k w d) k' = (if k' = k then insert w (dict_get d k) else dict_get d k')"
  by (simp add: add_word_def dict_get_def update_conv')

lemma keys_add_word: "fst ` set (add_word k w d) = insert k (fst ` set d)"
  by (simp add: add_word_def dom_update)

lemma distinct_add_word: "distinct (map fst d) \<Longrightarrow> distinct (map fst (add_word k w d))"
  by (simp add: add_word_def distinct_update)

lemma dict_get_separate_chars:
  "dict_get (separate_chars w cs d) k =
     (if \<exists>c\<in>set cs. has_kanji [c] \<and> k = [c] then insert w (dict_get d k) else dict_get d k)"
  by (induction cs arbitrary: d) (auto simp: dict_get_add_word)

lemma keys_separate_chars:
  "fst ` set (separate_chars w cs d) = fst ` set d \<union> {[c] | c. c \<in> set cs \<and> has_kanji [c]}"
  by (induction cs arbitrary: d) (auto simp: keys_add_word)

lemma distinct_separate_chars:
  "distinct (map fst d) \<Longrightarrow> distinct (map fst (separate_chars w cs d))"
  by (induction cs arbitrary: d) (auto simp: distinct_add_word)

lemma dict_get_separate_loop:
  "dict_get (separate_loop ws d) k =
     dict_get d k \<union> {w \<in> set ws. \<exists>c\<in>set w. has_kanji [c] \<and> k = [c]}"
  by (induction ws arbitrary: d) (auto simp: dict_get_separate_chars)

lemma keys_separate_loop:
  "fst ` set (separate_loop ws d) =
     fst ` set d \<union> {[c] | c w. w \<in> set ws \<and> c \<in> set w \<and> has_kanji [c]}"
  by (induction ws arbitrary: d) (auto simp: keys_separate_chars)

lemma distinct_separate_loop:
  "distinct (map fst d) \<Longrightarrow> distinct (map fst (separate_loop ws d))"
  by (induction ws arbitrary: d) (auto simp: distinct_separate_chars)

lemma dict_get_Nil: "dict_get [] k = {}"
  by (simp add: dict_get_def)

lemma dict_get_separate_words:
  "dict_get (separate_words ws) k = {w \<in> set ws. \<exists>c\<in>set w. has_kanji [c] \<and> k = [c]}"
  by (simp add: separate_words_def dict_get_separate_loop dict_get_Nil)

lemma keys_separate_words:
  "fst ` set (separate_words ws) = {[c] | c w. w \<in> set ws \<and> c \<in> set w \<and> has_kanji [c]}"
  by (simp add: separate_words_def keys_separate_loop)

lemma distinct_separate_words: "distinct (map fst (separate_words ws))"
  by (simp add: separate_words_def distinct_separate_loop)

lemma map_of_separate_words:
  "map_of (separate_words ws) k =
     (if \<exists>w\<in>set ws. \<exists>c\<in>set w. has_kanji [c] \<and> k = [c]
      then Some {w \<in> set ws. \<exists>c\<in>set w. has_kanji [c] \<and> k = [c]} else None)"
  unfolding map_of_dict_get [of "separate_words ws" k] dict_get_separate_words keys_separate_words
  by auto

section \<open>Facts about \<open>relate_words\<close>\<close>

lemma dict_get_update:
  "dict_get (AList.update k v d) k' = (if k' = k then v else dict_get d k')"
  by (simp add: dict_get_def update_conv')

lemma dict_get_member: "distinct (map fst d) \<Longrightarrow> (k, v) \<in> set d \<Longrightarrow> dict_get d k = v"
  by (simp add: dict_get_def)

lemma dict_get_not_key: "k \<notin> fst ` set d \<Longrightarrow> dict_get d k = {}"
  by (simp add: map_of_dict_get dict_get_def)

lemma keys_init_related: "fst ` set (init_related ws rel) = fst ` set rel \<union> set ws"
  by (induction ws arbitrary: rel) (auto simp: dom_update)

lemma distinct_init_related:
  "distinct (map fst rel) \<Longrightarrow> distinct (map fst (init_related ws rel))"
  by (induction ws arbitrary: rel) (auto simp: distinct_update)

lemma dict_get_init_related:
  "dict_get (init_related ws rel) w = (if w \<in> set ws then {} else dict_get rel w)"
  by (induction ws arbitrary: rel) (auto simp: dict_get_update)

lemma relate_items_Inr:
  "map_of rel w = Some s \<Longrightarrow>
   relate_items w items rel =
     Inr (AList.update w (s \<union> \<Union>(snd ` {p \<in> set items. str_contains w (fst p)})) rel)"
proof (induction items arbitrary: rel s)
  case Nil
  then show ?case by (simp add: update_triv)
next
  case (Cons p items)
  obtain kanji compounds where p: "p = (kanji, compounds)" by (cases p)
  show ?case
  proof (cases "str_contains w kanji")
    case False
    have "{q \<in> set (p # items). str_contains w (fst q)} = {q \<in> set items. str_contains w (fst q)}"
      using False p by auto
    with Cons False p show ?thesis by simp
  next
    case True
    let ?rel = "AList.update w (s \<union> compounds) rel"
    have m: "map_of ?rel w = Some (s \<union> compounds)" by (simp add: update_conv')
    have "{q \<in> set (p # items). str_contains w (fst q)}
            = insert p {q \<in> set items. str_contains w (fst q)}"
      using True p by auto
    then have "s \<union> \<Union>(snd ` {q \<in> set (p # items). str_contains w (fst q)})
            = (s \<union> compounds) \<union> \<Union>(snd ` {q \<in> set items. str_contains w (fst q)})"
      using p by auto
    with Cons.IH [OF m] True p Cons.prems show ?thesis by simp
  qed
qed

lemma relate_loop_Inr:
  "set ws \<subseteq> fst ` set rel \<Longrightarrow>
   \<exists>rel'. relate_loop ws comps rel = Inr rel' \<and> map fst rel' = map fst rel \<and>
     (\<forall>w. dict_get rel' w =
        (if w \<in> set ws then dict_get rel w \<union> \<Union>(snd ` {p \<in> set comps. str_contains w (fst p)})
         else dict_get rel w))"
proof (induction ws arbitrary: rel)
  case Nil
  then show ?case by simp
next
  case (Cons w ws)
  let ?U = "\<lambda>w. \<Union>(snd ` {p \<in> set comps. str_contains w (fst p)})"
  let ?rel = "AList.update w (dict_get rel w \<union> ?U w) rel"
  from Cons.prems have key: "w \<in> fst ` set rel" by simp
  then have m: "map_of rel w = Some (dict_get rel w)" by (simp add: map_of_dict_get)
  have step: "relate_items w comps rel = Inr ?rel" by (rule relate_items_Inr [OF m])
  have keys: "map fst ?rel = map fst rel" using key by (simp add: update_keys)
  then have "fst ` set ?rel = fst ` set rel" by (metis list.set_map)
  with Cons.prems have "set ws \<subseteq> fst ` set ?rel" by simp
  from Cons.IH [OF this] obtain rel' where
    r: "relate_loop ws comps ?rel = Inr rel'" "map fst rel' = map fst ?rel"
       "\<forall>v. dict_get rel' v = (if v \<in> set ws then dict_get ?rel v \<union> ?U v else dict_get ?rel v)"
    by blast
  have "relate_loop (w # ws) comps rel = Inr rel'" using step r(1) by simp
  moreover have "map fst rel' = map fst rel" using r(2) keys by simp
  moreover have "\<forall>v. dict_get rel' v =
      (if v \<in> set (w # ws) then dict_get rel v \<union> ?U v else dict_get rel v)"
    using r(3) by (auto simp: dict_get_update)
  ultimately show ?case by blast
qed

lemma accumulate_related_Inr:
  "\<exists>acc. accumulate_related ws comps = Inr acc \<and> map fst acc = map fst (init_related ws []) \<and>
     (\<forall>w. dict_get acc w =
        (if w \<in> set ws then \<Union>(snd ` {p \<in> set comps. str_contains w (fst p)}) else {}))"
proof -
  have "set ws \<subseteq> fst ` set (init_related ws [])" by (simp add: keys_init_related)
  from relate_loop_Inr [OF this, of comps] show ?thesis
    unfolding accumulate_related_def
    by (auto simp: dict_get_init_related dict_get_Nil)
qed

lemma remove_self_ok:
  "\<forall>p\<in>set rel. fst p \<in> snd p \<Longrightarrow> remove_self rel = Inr (map (\<lambda>(w, s). (w, s - {w})) rel)"
  by (induction rel) auto

lemma remove_self_fails:
  "\<exists>p\<in>set rel. fst p \<notin> snd p \<Longrightarrow> \<exists>p\<in>set rel. fst p \<notin> snd p \<and> remove_self rel = Inl (KeyError (fst p))"
proof (induction rel)
  case Nil
  then show ?case by simp
next
  case (Cons q rel)
  obtain w s where q: "q = (w, s)" by (cases q)
  show ?case
  proof (cases "w \<in> s")
    case False
    with q show ?thesis by auto
  next
    case True
    with Cons.prems q have "\<exists>p\<in>set rel. fst p \<notin> snd p" by auto
    from Cons.IH [OF this] obtain p where "p \<in> set rel" "fst p \<notin> snd p"
      "remove_self rel = Inl (KeyError (fst p))" by blast
    with True q show ?thesis by auto
  qed
qed

lemma shared_separate_words:
  "\<Union>(snd ` {p \<in> set (separate_words ws). str_contains w (fst p)})
     = {v \<in> set ws. \<exists>c\<in>set w. has_kanji [c] \<and> c \<in> set v}"
  (is "?L = ?R")
proof (rule set_eqI)
  fix v
  have "v \<in> ?L \<longleftrightarrow> (\<exists>k s. map_of (separate_words ws) k = Some s \<and> str_contains w k \<and> v \<in> s)"
    using distinct_separate_words [of ws] by (auto simp: map_of_eq_Some_iff)
  also have "\<dots> \<longleftrightarrow> v \<in> ?R"
  proof
    assume "\<exists>k s. map_of (separate_words ws) k = Some s \<and> str_contains w k \<and> v \<in> s"
    then obtain k s where "map_of (separate_words ws) k = Some s" "str_contains w k" "v \<in> s"
      by blast
    then show "v \<in> ?R"
      by (auto simp: map_of_separate_words str_contains_char split: if_splits)
  next
    assume "v \<in> ?R"
    then obtain c where c: "v \<in> set ws" "c \<in> set w" "has_kanji [c]" "c \<in> set v" by blast
    then have "map_of (separate_words ws) [c] = Some {u \<in> set ws. \<exists>d\<in>set u. has_kanji [d] \<and> [c] = [d]}"
      unfolding map_of_separate_words by auto
    moreover have "str_contains w [c]" using c by (simp add: str_contains_char)
    moreover have "v \<in> {u \<in> set ws. \<exists>d\<in>set u. has_kanji [d] \<and> [c] = [d]}" using c by auto
    ultimately show "\<exists>k s. map_of (separate_words ws) k = Some s \<and> str_contains w k \<and> v \<in> s"
      by blast
  qed
  finally show "v \<in> ?L \<longleftrightarrow> v \<in> ?R" .
qed

lemma map_of_remove_map:
  "map_of (map (\<lambda>(w, s). (w, s - {w})) rel) k = map_option (\<lambda>s. s - {k}) (map_of rel k)"
  by (induction rel) auto

lemma accumulate_separate_words:
  "\<exists>acc. accumulate_related ws (separate_words ws) = Inr acc
     \<and> map fst acc = map fst (init_related ws [])
     \<and> distinct (map fst acc) \<and> fst ` set acc = set ws
     \<and> (\<forall>w\<in>set ws. map_of acc w = Some {v \<in> set ws. \<exists>c\<in>set w. has_kanji [c] \<and> c \<in> set v})
     \<and> (\<forall>p\<in>set acc. snd p = {v \<in> set ws. \<exists>c\<in>set (fst p). has_kanji [c] \<and> c \<in> set v})"
proof -
  from accumulate_related_Inr [of ws "separate_words ws"] obtain acc where
    a: "accumulate_related ws (separate_words ws) = Inr acc"
       "map fst acc = map fst (init_related ws [])"
       "\<forall>w. dict_get acc w = (if w \<in> set ws
           then \<Union>(snd ` {p \<in> set (separate_words ws). str_contains w (fst p)}) else {})"
    by blast
  have d: "distinct (map fst acc)" using a(2) by (simp add: distinct_init_related)
  have "set (map fst acc) = set (map fst (init_related ws []))" using a(2) by simp
  then have k: "fst ` set acc = set ws" by (simp add: keys_init_related)
  have g: "\<forall>w\<in>set ws. dict_get acc w = {v \<in> set ws. \<exists>c\<in>set w. has_kanji [c] \<and> c \<in> set v}"
    using a(3) by (simp add: shared_separate_words)
  have m: "\<forall>w\<in>set ws. map_of acc w = Some {v \<in> set ws. \<exists>c\<in>set w. has_kanji [c] \<and> c \<in> set v}"
    using g k by (simp add: map_of_dict_get)
  have p: "\<forall>p\<in>set acc. snd p = {v \<in> set ws. \<exists>c\<in>set (fst p). has_kanji [c] \<and> c \<in> set v}"
  proof
    fix p assume p: "p \<in> set acc"
    then have "fst p \<in> set ws" using k by force
    moreover have "dict_get acc (fst p) = snd p"
      using d p by (intro dict_get_member) simp_all
    ultimately show "snd p = {v \<in> set ws. \<exists>c\<in>set (fst p). has_kanji [c] \<and> c \<in> set v}"
      using g by auto
  qed
  from a(1) a(2) d k m p show ?thesis by blast
qed

lemma relate_separate_words_ok:
  assumes "\<forall>w\<in>set ws. has_kanji w"
  shows "\<exists>acc. accumulate_related ws (separate_words ws) = Inr acc
     \<and> relate_words ws (separate_words ws) = Inr (map (\<lambda>(w, s). (w, s - {w})) acc)
     \<and> map fst acc = map fst (init_related ws [])
     \<and> distinct (map fst acc) \<and> fst ` set acc = set ws
     \<and> (\<forall>p\<in>set acc. fst p \<in> snd p)
     \<and> (\<forall>w\<in>set ws. map_of acc w = Some {v \<in> set ws. \<exists>c\<in>set w. has_kanji [c] \<and> c \<in> set v})"
proof -
  from accumulate_separate_words [of ws] obtain acc where
    a: "accumulate_related ws (separate_words ws) = Inr acc"
       "map fst acc = map fst (init_related ws [])"
       "distinct (map fst acc)" "fst ` set acc = set ws"
       "\<forall>w\<in>set ws. map_of acc w = Some {v \<in> set ws. \<exists>c\<in>set w. has_kanji [c] \<and> c \<in> set v}"
       "\<forall>p\<in>set acc. snd p = {v \<in> set ws. \<exists>c\<in>set (fst p). has_kanji [c] \<and> c \<in> set v}"
    by blast
  have self: "\<forall>p\<in>set acc. fst p \<in> snd p"
  proof
    fix p assume p: "p \<in> set acc"
    then have w: "fst p \<in> set ws" using a(4) by force
    with assms have "has_kanji (fst p)" by simp
    then have "\<exists>c\<in>set (fst p). has_kanji [c]" by (simp add: has_kanji_set [of "fst p"])
    with w a(6) p show "fst p \<in> snd p" by auto
  qed
  have "relate_words ws (separate_words ws) = Inr (map (\<lambda>(w, s). (w, s - {w})) acc)"
    using a(1) remove_self_ok [OF self] by (simp add: relate_words_def)
  with a self show ?thesis by blast
qed

lemma relate_separate_words_fails:
  assumes "\<exists>w\<in>set ws. \<not> has_kanji w"
  shows "\<exists>w\<in>set ws. \<not> has_kanji w \<and> relate_words ws (separate_words ws) = Inl (KeyError w)"
proof -
  from accumulate_separate_words [of ws] obtain acc where
    a: "accumulate_related ws (separate_words ws) = Inr acc"
       "fst ` set acc = set ws"
       "\<forall>p\<in>set acc. snd p = {v \<in> set ws. \<exists>c\<in>set (fst p). has_kanji [c] \<and> c \<in> set v}"
    by blast
  have mem: "\<And>p. p \<in> set acc \<Longrightarrow> fst p \<in> set ws \<and> (fst p \<in> snd p \<longleftrightarrow> has_kanji (fst p))"
  proof -
    fix p assume p: "p \<in> set acc"
    then have w: "fst p \<in> set ws" using a(2) by force
    have "fst p \<in> snd p \<longleftrightarrow> (\<exists>c\<in>set (fst p). has_kanji [c])" using a(3) p w by auto
    with w show "fst p \<in> set ws \<and> (fst p \<in> snd p \<longleftrightarrow> has_kanji (fst p))"
      by (simp add: has_kanji_set [of "fst p"])
  qed
  from assms obtain w where w: "w \<in> set ws" "\<not> has_kanji w" by blast
  then obtain p where "p \<in> set acc" "fst p = w" using a(2) by force
  then have "\<exists>p\<in>set acc. fst p \<notin> snd p" using mem w by blast
  from remove_self_fails [OF this] obtain q where
    q: "q \<in> set acc" "fst q \<notin> snd q" "remove_self acc = Inl (KeyError (fst q))" by blast
  then have "fst q \<in> set ws" "\<not> has_kanji (fst q)" using mem by blast+
  moreover have "relate_words ws (separate_words ws) = Inl (KeyError (fst q))"
    using a(1) q(3) by (simp add: relate_words_def)
  ultimately show ?thesis by blast
qed

lemma relate_separate_words_map_of:
  assumes "\<forall>w\<in>set ws. has_kanji w"
  shows "\<exists>rel. relate_words ws (separate_words ws) = Inr rel
     \<and> map fst rel = map fst (init_related ws [])
     \<and> (\<forall>w\<in>set ws. map_of rel w = Some ({v \<in> set ws. \<exists>c\<in>set w. has_kanji [c] \<and> c \<in> set v} - {w}))"
proof -
  from relate_separate_words_ok [OF assms] obtain acc where
    a: "relate_words ws (separate_words ws) = Inr (map (\<lambda>(w, s). (w, s - {w})) acc)"
       "map fst acc = map fst (init_related ws [])"
       "\<forall>w\<in>set ws. map_of acc w = Some {v \<in> set ws. \<exists>c\<in>set w. has_kanji [c] \<and> c \<in> set v}"
    by blast
  have "map fst (map (\<lambda>(w, s). (w, s - {w})) acc) = map fst acc"
    by (induction acc) auto
  with a show ?thesis by (auto simp: map_of_remove_map)
qed

section \<open>The example, evaluated\<close>

lemma sort_scenario: "sort [kesa, konban, choshoku, taberu, tanoshii] = [konban, kesa, choshoku, tanoshii, taberu]"
  by simp

lemma separate_scenario:
  "separate_words [konban, kesa, choshoku, tanoshii, taberu] =
     [([0x4ECA], {konban, kesa}), ([0x6669], {konban}), ([0x671D], {kesa, choshoku}),
      ([0x98DF], {choshoku, taberu}), ([0x697D], {tanoshii})]"
  by (simp add: separate_words_def add_word_def dict_get_def has_kanji_char insert_commute)


lemma accumulate_scenario:
  "accumulate_related [konban, kesa, choshoku, tanoshii, taberu]
     [([0x4ECA], {konban, kesa}), ([0x6669], {konban}), ([0x671D], {kesa, choshoku}),
      ([0x98DF], {choshoku, taberu}), ([0x697D], {tanoshii})] =
   Inr [(konban, {konban, kesa}), (kesa, {konban, kesa, choshoku}),
        (choshoku, {kesa, choshoku, taberu}), (tanoshii, {tanoshii}),
        (taberu, {choshoku, taberu})]"
  by (simp add: accumulate_related_def insert_commute)

lemma relate_scenario:
  "relate_words [konban, kesa, choshoku, tanoshii, taberu]
     [([0x4ECA], {konban, kesa}), ([0x6669], {konban}), ([0x671D], {kesa, choshoku}),
      ([0x98DF], {choshoku, taberu}), ([0x697D], {tanoshii})] =
   Inr [(konban, {kesa}), (kesa, {konban, choshoku}),
        (choshoku, {kesa, taberu}), (tanoshii, {}),
        (taberu, {choshoku})]"
  unfolding relate_words_def accumulate_scenario
  by (simp add: insert_Diff_if)

lemma sorted_list_of_set_eq:
  "sorted xs \<Longrightarrow> distinct xs \<Longrightarrow> sorted_list_of_set (set xs) = xs"
  by (simp add: sorted_list_of_set.idem_if_sorted_distinct)

lemma main_core_example: "main_core [kesa, konban, choshoku, taberu, tanoshii] =
  Inr ([([0x4ECA], [konban, kesa]), ([0x6669], [konban]), ([0x671D], [kesa, choshoku]),
        ([0x98DF], [choshoku, taberu]), ([0x697D], [tanoshii])],
       [(konban, [kesa]), (kesa, [konban, choshoku]), (choshoku, [kesa, taberu]),
        (tanoshii, []), (taberu, [choshoku])])"
  unfolding main_core_def sort_scenario Let_def separate_scenario relate_scenario
  using sorted_list_of_set_eq [of "[konban, kesa]"] sorted_list_of_set_eq [of "[kesa, choshoku]"]
    sorted_list_of_set_eq [of "[choshoku, taberu]"] sorted_list_of_set_eq [of "[konban, choshoku]"]
    sorted_list_of_set_eq [of "[kesa, taberu]"]
  by (simp add: normalize_def)

section \<open>The recommended strategy\<close>

lemma alist_eqI:
  "map fst xs = map fst ys \<Longrightarrow> distinct (map fst xs) \<Longrightarrow> map_of xs = map_of ys \<Longrightarrow> xs = ys"
proof (induction xs arbitrary: ys)
  case Nil
  then show ?case by simp
next
  case (Cons x xs)
  from Cons.prems(1) obtain y ys' where ys: "ys = y # ys'" by (cases ys) auto
  with Cons.prems(1) have k: "fst x = fst y" and ks: "map fst xs = map fst ys'" by auto
  have "map_of (x # xs) (fst x) = map_of (y # ys') (fst x)"
    using fun_cong [OF Cons.prems(3), of "fst x"] unfolding ys .
  then have v: "snd x = snd y" using k by (cases x; cases y) auto
  have nx: "fst x \<notin> set (map fst xs)" using Cons.prems(2) by simp
  then have ny: "fst x \<notin> set (map fst ys')" using ks by simp
  have "map_of xs = map_of ys'"
  proof
    fix a
    show "map_of xs a = map_of ys' a"
    proof (cases "a = fst x")
      case True
      have "map_of xs (fst x) = None" using nx by (simp add: map_of_eq_None_iff)
      moreover have "map_of ys' (fst x) = None" using ny by (simp add: map_of_eq_None_iff)
      ultimately show ?thesis using True by simp
    next
      case False
      have "map_of (x # xs) a = map_of (y # ys') a"
        using fun_cong [OF Cons.prems(3), of a] unfolding ys .
      with False k show ?thesis by (cases x; cases y) auto
    qed
  qed
  with Cons.IH [OF ks] Cons.prems(2) have "xs = ys'" by simp
  with k v ys show ?case by (cases x; cases y) auto
qed

lemma keys_opt_loop:
  "map fst rel = map fst rel' \<Longrightarrow>
   map fst (relate_words_opt_loop ws comps rel) = map fst (init_related ws rel')"
proof (induction ws arbitrary: rel rel')
  case Nil
  then show ?case by simp
next
  case (Cons w ws)
  have "map fst (AList.update w (related_opt w comps) rel) = map fst (AList.update w {} rel')"
    using Cons.prems by (simp add: update_keys)
  from Cons.IH [OF this] show ?case by simp
qed

lemma map_of_opt_loop:
  "map_of (relate_words_opt_loop ws comps rel) w =
     (if w \<in> set ws then Some (related_opt w comps) else map_of rel w)"
  by (induction ws arbitrary: rel) (auto simp: update_conv')

lemma related_opt_separate_words:
  "related_opt w (separate_words ws) = {v \<in> set ws. \<exists>c\<in>set w. has_kanji [c] \<and> c \<in> set v} - {w}"
  by (auto simp: related_opt_def dict_get_separate_words)


section \<open>Properties of the specification\<close>

text \<open>
  C6.  For every string \<open>w\<close>, \<open>has_kanji w\<close> is true exactly when \<open>w\<close> is non-empty and
  one of its characters has a code point from U+4E00 to U+9FAF inclusive; on a single
  character the predicate decides that range, so every code point outside it (kana,
  Latin letters, digits, punctuation) is not logographic; the empty string gives false.
\<close>

theorem has_kanji_spec:
  "(has_kanji w \<longleftrightarrow> w \<noteq> [] \<and> (\<exists>c\<in>set w. 0x4E00 \<le> c \<and> c \<le> 0x9FAF))
   \<and> (has_kanji [c] \<longleftrightarrow> 0x4E00 \<le> c \<and> c \<le> 0x9FAF)
   \<and> (c < 0x4E00 \<or> 0x9FAF < c \<longrightarrow> \<not> has_kanji [c])
   \<and> \<not> has_kanji []"
  by (auto simp: has_kanji_iff)

theorem has_kanji_spec_witness:
  "has_kanji [0x98DF, 0x3079, 0x308B] \<and> has_kanji [0x4E00] \<and> has_kanji [0x9FAF]
   \<and> \<not> has_kanji [0x4DFF] \<and> \<not> has_kanji [0x9FB0]
   \<and> \<not> has_kanji [0x304B, 0x306A] \<and> \<not> has_kanji [0x65, 0x6E, 0x21] \<and> \<not> has_kanji []"
  using has_kanji_spec [of "[0x98DF, 0x3079, 0x308B]" "0x4E00"]
    has_kanji_spec [of "[0x304B, 0x306A]" "0x9FAF"]
    has_kanji_spec [of "[0x65, 0x6E, 0x21]" "0x4DFF"]
    has_kanji_spec [of "[]" "0x9FB0"]
  by simp


text \<open>
  C7.  For every sequence of words that all contain a logographic character, the
  strategy the specification recommends (per word, look up its distinct logographic
  characters in the component index, union the sets, remove the word) gives the very
  dictionary \<open>relate_words\<close> returns, keys in the same order.
\<close>
theorem relate_words_opt_equiv:
  assumes "\<forall>w\<in>set ws. has_kanji w"
  shows "relate_words ws (separate_words ws) = Inr (relate_words_opt ws (separate_words ws))"
proof -
  let ?opt = "relate_words_opt ws (separate_words ws)"
  from relate_separate_words_map_of [OF assms] obtain rel where
    r: "relate_words ws (separate_words ws) = Inr rel"
       "map fst rel = map fst (init_related ws [])"
       "\<forall>w\<in>set ws. map_of rel w = Some ({v \<in> set ws. \<exists>c\<in>set w. has_kanji [c] \<and> c \<in> set v} - {w})"
    by blast
  have keys: "map fst rel = map fst ?opt"
    using r(2) keys_opt_loop [of "[]" "[]" ws "separate_words ws"]
    by (simp add: relate_words_opt_def)
  have dist: "distinct (map fst rel)" using r(2) by (simp add: distinct_init_related)
  have "set (map fst rel) = set (map fst (init_related ws []))" using r(2) by simp
  then have dom: "fst ` set rel = set ws" by (simp add: keys_init_related)
  have "map_of rel = map_of ?opt"
  proof
    fix w
    show "map_of rel w = map_of ?opt w"
    proof (cases "w \<in> set ws")
      case True
      with r(3) show ?thesis
        by (simp add: relate_words_opt_def map_of_opt_loop related_opt_separate_words)
    next
      case False
      then have "map_of rel w = None" using dom by (simp add: map_of_eq_None_iff)
      with False show ?thesis by (simp add: relate_words_opt_def map_of_opt_loop)
    qed
  qed
  from alist_eqI [OF keys dist this] r(1) show ?thesis by simp
qed

theorem relate_words_opt_equiv_witness:
  "list_all has_kanji [konban, kesa, tanoshii, konban]
   \<and> relate_words [konban, kesa, tanoshii, konban] (separate_words [konban, kesa, tanoshii, konban])
       = Inr (relate_words_opt [konban, kesa, tanoshii, konban]
                (separate_words [konban, kesa, tanoshii, konban]))
   \<and> relate_words_opt [konban, kesa, tanoshii, konban]
        (separate_words [konban, kesa, tanoshii, konban])
       = [(konban, {kesa}), (kesa, {konban}), (tanoshii, {})]"
proof -
  have hl: "list_all has_kanji [konban, kesa, tanoshii, konban]" by (simp add: has_kanji_iff)
  have h: "\<forall>w\<in>set [konban, kesa, tanoshii, konban]. has_kanji w"
    by (simp add: has_kanji_iff)
  have s: "separate_words [konban, kesa, tanoshii, konban]
      = [([0x4ECA], {konban, kesa}), ([0x6669], {konban}), ([0x671D], {kesa}), ([0x697D], {tanoshii})]"
    by (simp add: separate_words_def add_word_def dict_get_def has_kanji_char insert_commute)
  have o: "relate_words_opt [konban, kesa, tanoshii, konban]
      [([0x4ECA], {konban, kesa}), ([0x6669], {konban}), ([0x671D], {kesa}), ([0x697D], {tanoshii})]
       = [(konban, {kesa}), (kesa, {konban}), (tanoshii, {})]"
    by (simp add: relate_words_opt_def related_opt_def dict_get_def has_kanji_char insert_Diff_if)
  from h relate_words_opt_equiv [OF h] s o show ?thesis using hl by simp
qed

text \<open>
  C1, as stated: \<open>relate_words\<close> returns for every word sequence, also one holding a word
  with no logographic character, the removal of an absent word being a no-op.  It does
  not: on the single kana word, with the component index \<open>separate_words\<close> builds for
  it, \<open>rel_words.remove(word)\<close> raises \<open>KeyError\<close>.
\<close>

theorem relate_words_kana_counterexample:
  "relate_words [kana] (separate_words [kana]) = Inl (KeyError kana)"
  by (simp add: relate_words_def accumulate_related_def separate_words_def has_kanji_char)

text \<open>
  C1, amended.  \<open>relate_words words (separate_words words)\<close> returns a relation index
  exactly when every word of the sequence contains a logographic character; when some
  word contains none, it raises \<open>KeyError\<close> at such a word: the removal of a word from its
  own accumulated set is a required deletion.
\<close>

theorem relate_words_returns_iff:
  "((\<exists>rel. relate_words ws (separate_words ws) = Inr rel) \<longleftrightarrow> (\<forall>w\<in>set ws. has_kanji w))
   \<and> ((\<exists>w\<in>set ws. \<not> has_kanji w) \<longrightarrow>
        (\<exists>w\<in>set ws. \<not> has_kanji w \<and> relate_words ws (separate_words ws) = Inl (KeyError w)))"
proof -
  have "\<exists>rel. relate_words ws (separate_words ws) = Inr rel" if "\<forall>w\<in>set ws. has_kanji w"
    using relate_separate_words_ok [OF that] by blast
  moreover have "\<exists>w\<in>set ws. \<not> has_kanji w \<and> relate_words ws (separate_words ws) = Inl (KeyError w)"
    if "\<exists>w\<in>set ws. \<not> has_kanji w"
    using relate_separate_words_fails [OF that] .
  ultimately show ?thesis by (metis sum.distinct(1))
qed

theorem relate_words_returns_iff_witness:
  "list_all has_kanji [kesa, kesa, taberu]
   \<and> (\<exists>rel. relate_words [kesa, kesa, taberu] (separate_words [kesa, kesa, taberu]) = Inr rel)
   \<and> (\<exists>w\<in>set [kesa, kana]. \<not> has_kanji w)
   \<and> relate_words [kesa, kana] (separate_words [kesa, kana]) = Inl (KeyError kana)"
proof -
  have hl: "list_all has_kanji [kesa, kesa, taberu]" by (simp add: has_kanji_iff)
  have h: "\<forall>w\<in>set [kesa, kesa, taberu]. has_kanji w" by (simp add: has_kanji_iff)
  have k: "\<exists>w\<in>set [kesa, kana]. \<not> has_kanji w" by (simp add: has_kanji_iff)
  have g: "has_kanji kesa" by (simp add: has_kanji_iff)
  from relate_words_returns_iff [of "[kesa, kesa, taberu]"] h
  have 1: "\<exists>rel. relate_words [kesa, kesa, taberu] (separate_words [kesa, kesa, taberu]) = Inr rel"
    by blast
  from relate_words_returns_iff [of "[kesa, kana]"] k
  have "\<exists>w\<in>set [kesa, kana]. \<not> has_kanji w
          \<and> relate_words [kesa, kana] (separate_words [kesa, kana]) = Inl (KeyError w)"
    by blast
  with g have 2: "relate_words [kesa, kana] (separate_words [kesa, kana]) = Inl (KeyError kana)"
    by auto
  from h 1 k 2 show ?thesis using hl by blast
qed

text \<open>
  C10.  When every input word satisfies \<open>has_kanji\<close> and the components are
  \<open>separate_words\<close> of the same sequence, the accumulation returns a dictionary in which
  every word is a member of its own set, so the self-removal finds its element at every
  entry and \<open>relate_words\<close> returns without raising.
\<close>

theorem self_link_present:
  assumes "\<forall>w\<in>set ws. has_kanji w"
  shows "\<exists>acc. accumulate_related ws (separate_words ws) = Inr acc
           \<and> (\<forall>w\<in>set ws. \<exists>s. map_of acc w = Some s \<and> w \<in> s)
           \<and> (\<forall>p\<in>set acc. fst p \<in> snd p)
           \<and> (\<exists>rel. remove_self acc = Inr rel \<and> relate_words ws (separate_words ws) = Inr rel)"
proof -
  from relate_separate_words_ok [OF assms] obtain acc where
    a: "accumulate_related ws (separate_words ws) = Inr acc"
       "relate_words ws (separate_words ws) = Inr (map (\<lambda>(w, s). (w, s - {w})) acc)"
       "\<forall>p\<in>set acc. fst p \<in> snd p"
       "\<forall>w\<in>set ws. map_of acc w = Some {v \<in> set ws. \<exists>c\<in>set w. has_kanji [c] \<and> c \<in> set v}"
    by blast
  have "\<forall>w\<in>set ws. \<exists>s. map_of acc w = Some s \<and> w \<in> s"
  proof
    fix w assume w: "w \<in> set ws"
    with assms have "has_kanji w" by simp
    then have "\<exists>c\<in>set w. has_kanji [c]" using has_kanji_set [of w] by blast
    with w a(4) show "\<exists>s. map_of acc w = Some s \<and> w \<in> s" by auto
  qed
  moreover have "remove_self acc = Inr (map (\<lambda>(w, s). (w, s - {w})) acc)"
    by (rule remove_self_ok [OF a(3)])
  ultimately show ?thesis using a(1,2,3) by blast
qed

theorem self_link_present_witness:
  "list_all has_kanji [konban, kesa, konban]
   \<and> accumulate_related [konban, kesa, konban] (separate_words [konban, kesa, konban])
       = Inr [(konban, {konban, kesa}), (kesa, {konban, kesa})]
   \<and> (\<exists>rel. relate_words [konban, kesa, konban] (separate_words [konban, kesa, konban]) = Inr rel)"
proof -
  have hl: "list_all has_kanji [konban, kesa, konban]" by (simp add: has_kanji_iff)
  have h: "\<forall>w\<in>set [konban, kesa, konban]. has_kanji w" by (simp add: has_kanji_iff)
  have "accumulate_related [konban, kesa, konban] (separate_words [konban, kesa, konban])
       = Inr [(konban, {konban, kesa}), (kesa, {konban, kesa})]"
    by (simp add: accumulate_related_def separate_words_def add_word_def dict_get_def
        has_kanji_char insert_commute)
  with h self_link_present [OF h] show ?thesis using hl by auto
qed

text \<open>
  C2, as stated: on the example's five words the pipeline gives, under the character
  U+671D, the list [konban, choshoku].  It does not: the pipeline's output is the one
  below, and its entry at U+671D is [kesa, choshoku] (konban does not contain U+671D).
\<close>

theorem main_core_docstring_counterexample:
  "main_core [kesa, konban, choshoku, taberu, tanoshii] =
     Inr ([([0x4ECA], [konban, kesa]), ([0x6669], [konban]), ([0x671D], [kesa, choshoku]),
           ([0x98DF], [choshoku, taberu]), ([0x697D], [tanoshii])],
          [(konban, [kesa]), (kesa, [konban, choshoku]), (choshoku, [kesa, taberu]),
           (tanoshii, []), (taberu, [choshoku])])
   \<and> map_of [([0x4ECA], [konban, kesa]), ([0x6669], [konban]), ([0x671D], [kesa, choshoku]),
              ([0x98DF], [choshoku, taberu]), ([0x697D], [tanoshii])] [0x671D]
       \<noteq> map_of [([0x4ECA], [konban, kesa]), ([0x671D], [konban, choshoku]), ([0x6669], [konban]),
                  ([0x98DF], [choshoku, taberu]), ([0x697D], [tanoshii])] [0x671D::nat]"
  unfolding main_core_example by simp

text \<open>
  C2, amended.  On the example's words the pipeline returns
  components = {U+4ECA: [konban, kesa], U+6669: [konban], U+671D: [kesa, choshoku],
  U+98DF: [choshoku, taberu], U+697D: [tanoshii]} and
  related_words = {konban: [kesa], kesa: [konban, choshoku], choshoku: [kesa, taberu],
  tanoshii: [], taberu: [choshoku]}, the keys in this insertion order, and every value
  list is sorted by code point and free of duplicates.
\<close>

theorem main_core_scenario:
  "main_core [kesa, konban, choshoku, taberu, tanoshii] =
     Inr ([([0x4ECA], [konban, kesa]), ([0x6669], [konban]), ([0x671D], [kesa, choshoku]),
           ([0x98DF], [choshoku, taberu]), ([0x697D], [tanoshii])],
          [(konban, [kesa]), (kesa, [konban, choshoku]), (choshoku, [kesa, taberu]),
           (tanoshii, []), (taberu, [choshoku])])
   \<and> list_all (\<lambda>(k, v). sorted v \<and> distinct v)
        [([0x4ECA], [konban, kesa]), ([0x6669], [konban]), ([0x671D], [kesa, choshoku]),
         ([0x98DF], [choshoku, taberu]), ([0x697D], [tanoshii])]
   \<and> list_all (\<lambda>(k, v). sorted v \<and> distinct v)
        [(konban, [kesa]), (kesa, [konban, choshoku]), (choshoku, [kesa, taberu]),
         (tanoshii, []), (taberu, [choshoku])]"
  unfolding main_core_example by simp

text \<open>
  C3.  For every sequence of words that all contain a logographic character, and every
  word \<open>w\<close> of it, \<open>relate_words words (separate_words words)\<close> returns a dictionary whose
  value at \<open>w\<close> is the union, over the logographic characters \<open>c\<close> of \<open>w\<close>, of the sets
  the component index stores at \<open>c\<close>, with \<open>w\<close> itself removed.
\<close>

theorem relation_is_union:
  assumes "\<forall>w\<in>set ws. has_kanji w" and "w \<in> set ws"
  shows "\<exists>rel. relate_words ws (separate_words ws) = Inr rel
           \<and> map_of rel w =
               Some (\<Union>{s. \<exists>c\<in>set w. has_kanji [c] \<and> map_of (separate_words ws) [c] = Some s} - {w})"
proof -
  from relate_separate_words_map_of [OF assms(1)] obtain rel where
    r: "relate_words ws (separate_words ws) = Inr rel"
       "\<forall>w\<in>set ws. map_of rel w = Some ({v \<in> set ws. \<exists>c\<in>set w. has_kanji [c] \<and> c \<in> set v} - {w})"
    by blast
  have "\<Union>{s. \<exists>c\<in>set w. has_kanji [c] \<and> map_of (separate_words ws) [c] = Some s}
          = {v \<in> set ws. \<exists>c\<in>set w. has_kanji [c] \<and> c \<in> set v}" (is "?L = ?R")
  proof (rule set_eqI)
    fix v
    show "v \<in> ?L \<longleftrightarrow> v \<in> ?R"
    proof
      assume "v \<in> ?L"
      then obtain s c where "v \<in> s" "c \<in> set w" "has_kanji [c]"
        "map_of (separate_words ws) [c] = Some s" by blast
      then show "v \<in> ?R" by (auto simp: map_of_separate_words split: if_splits)
    next
      assume "v \<in> ?R"
      then obtain c where c: "v \<in> set ws" "c \<in> set w" "has_kanji [c]" "c \<in> set v" by blast
      then have "map_of (separate_words ws) [c] = Some {u \<in> set ws. \<exists>d\<in>set u. has_kanji [d] \<and> [c] = [d]}"
        unfolding map_of_separate_words by auto
      moreover have "v \<in> {u \<in> set ws. \<exists>d\<in>set u. has_kanji [d] \<and> [c] = [d]}" using c by auto
      ultimately show "v \<in> ?L" using c(2,3) by blast
    qed
  qed
  with r assms(2) show ?thesis by auto
qed

theorem relation_is_union_witness:
  "list_all has_kanji [konban, kesa, choshoku] \<and> kesa \<in> set [konban, kesa, choshoku]
   \<and> (\<exists>rel. relate_words [konban, kesa, choshoku] (separate_words [konban, kesa, choshoku]) = Inr rel
          \<and> map_of rel kesa = Some {konban, choshoku})"
proof -
  have hl: "list_all has_kanji [konban, kesa, choshoku]" by (simp add: has_kanji_iff)
  have h: "\<forall>w\<in>set [konban, kesa, choshoku]. has_kanji w" by (simp add: has_kanji_iff)
  have m: "kesa \<in> set [konban, kesa, choshoku]" by simp
  have s: "separate_words [konban, kesa, choshoku] =
      [([0x4ECA], {konban, kesa}), ([0x6669], {konban}), ([0x671D], {kesa, choshoku}),
       ([0x98DF], {choshoku})]"
    by (simp add: separate_words_def add_word_def dict_get_def has_kanji_char insert_commute)
  have u: "\<Union>{s. \<exists>c\<in>set kesa. has_kanji [c] \<and> map_of (separate_words [konban, kesa, choshoku]) [c] = Some s} - {kesa}
      = {konban, choshoku}"
    unfolding s by (auto simp: has_kanji_char)
  from relation_is_union [OF h m] h m show ?thesis using hl unfolding u by blast
qed

text \<open>
  C4.  For every sequence of words, \<open>w\<close> is a member of the set \<open>separate_words\<close> stores
  at the character \<open>c\<close> exactly when \<open>w\<close> occurs in the sequence, \<open>c\<close> is logographic and
  \<open>c\<close> occurs in \<open>w\<close>.  So every key is one logographic character, every stored set is
  non-empty and holds only input words containing the key, every word is stored at every
  logographic character it contains, and no key occurs twice.
\<close>

theorem separate_words_membership:
  "((\<exists>s. map_of (separate_words ws) [c] = Some s \<and> w \<in> s)
      \<longleftrightarrow> w \<in> set ws \<and> has_kanji [c] \<and> c \<in> set w)
   \<and> (\<forall>k s. map_of (separate_words ws) k = Some s \<longrightarrow>
         (\<exists>c. k = [c] \<and> has_kanji [c]) \<and> s \<noteq> {} \<and> (\<forall>v\<in>s. v \<in> set ws \<and> str_contains v k))
   \<and> (\<forall>v\<in>set ws. \<forall>d\<in>set v. has_kanji [d] \<longrightarrow>
         (\<exists>s. map_of (separate_words ws) [d] = Some s \<and> v \<in> s))
   \<and> distinct (map fst (separate_words ws))"
proof -
  have 1: "(\<exists>s. map_of (separate_words ws) [c] = Some s \<and> w \<in> s)
      \<longleftrightarrow> w \<in> set ws \<and> has_kanji [c] \<and> c \<in> set w"
    by (auto simp: map_of_separate_words)
  have 2: "\<forall>k s. map_of (separate_words ws) k = Some s \<longrightarrow>
         (\<exists>c. k = [c] \<and> has_kanji [c]) \<and> s \<noteq> {} \<and> (\<forall>v\<in>s. v \<in> set ws \<and> str_contains v k)"
    by (auto simp: map_of_separate_words str_contains_char split: if_splits)
  have 3: "\<forall>v\<in>set ws. \<forall>d\<in>set v. has_kanji [d] \<longrightarrow>
         (\<exists>s. map_of (separate_words ws) [d] = Some s \<and> v \<in> s)"
    by (auto simp: map_of_separate_words)
  from 1 2 3 distinct_separate_words [of ws] show ?thesis by blast
qed

theorem separate_words_membership_witness:
  "(\<exists>s. map_of (separate_words [kesa, kana, taberu]) [0x4ECA] = Some s \<and> kesa \<in> s)
   \<and> kesa \<in> set [kesa, kana, taberu] \<and> has_kanji [0x4ECA] \<and> 0x4ECA \<in> set kesa
   \<and> map_of (separate_words [kesa, kana, taberu]) [0x98DF] = Some {taberu}
   \<and> (\<exists>s. map_of (separate_words [kesa, kana, taberu]) [0x671D] = Some s \<and> kesa \<in> s)"
proof -
  have s: "map_of (separate_words [kesa, kana, taberu]) [0x98DF] = Some {taberu}"
    by (simp add: separate_words_def add_word_def dict_get_def has_kanji_char update_conv')
  have h: "kesa \<in> set [kesa, kana, taberu] \<and> has_kanji [0x4ECA] \<and> 0x4ECA \<in> set kesa"
    by (simp add: has_kanji_char)
  have g: "has_kanji [0x671D]" by (simp add: has_kanji_char)
  from separate_words_membership [of "[kesa, kana, taberu]" "0x4ECA" kesa] h
  have 1: "\<exists>s. map_of (separate_words [kesa, kana, taberu]) [0x4ECA] = Some s \<and> kesa \<in> s"
    by blast
  from separate_words_membership [of "[kesa, kana, taberu]" "0x4ECA" kesa]
  have "\<forall>v\<in>set [kesa, kana, taberu]. \<forall>d\<in>set v. has_kanji [d] \<longrightarrow>
         (\<exists>s. map_of (separate_words [kesa, kana, taberu]) [d] = Some s \<and> v \<in> s)"
    by blast
  with g have 2: "\<exists>s. map_of (separate_words [kesa, kana, taberu]) [0x671D] = Some s \<and> kesa \<in> s"
    by simp
  from 1 h s 2 show ?thesis by blast
qed

text \<open>
  C5.  In a sequence of words that all contain a logographic character, two distinct
  words \<open>x\<close> and \<open>y\<close> that share a logographic character are related both ways:
  \<open>y\<close> is in the relation set of \<open>x\<close> and \<open>x\<close> is in the relation set of \<open>y\<close>.
\<close>

theorem relate_words_symmetric:
  assumes "\<forall>w\<in>set ws. has_kanji w"
    and "x \<in> set ws" and "y \<in> set ws" and "x \<noteq> y"
    and "c \<in> set x" and "c \<in> set y" and "has_kanji [c]"
  shows "\<exists>rel sx sy. relate_words ws (separate_words ws) = Inr rel
           \<and> map_of rel x = Some sx \<and> y \<in> sx \<and> map_of rel y = Some sy \<and> x \<in> sy"
proof -
  from relate_separate_words_map_of [OF assms(1)] obtain rel where
    r: "relate_words ws (separate_words ws) = Inr rel"
       "\<forall>w\<in>set ws. map_of rel w = Some ({v \<in> set ws. \<exists>c\<in>set w. has_kanji [c] \<and> c \<in> set v} - {w})"
    by blast
  let ?sx = "{v \<in> set ws. \<exists>c\<in>set x. has_kanji [c] \<and> c \<in> set v} - {x}"
  let ?sy = "{v \<in> set ws. \<exists>c\<in>set y. has_kanji [c] \<and> c \<in> set v} - {y}"
  have "map_of rel x = Some ?sx" "map_of rel y = Some ?sy" using r(2) assms(2,3) by simp_all
  moreover have "y \<in> ?sx" "x \<in> ?sy" using assms(2-7) by auto
  ultimately show ?thesis using r(1) by blast
qed

theorem relate_words_symmetric_witness:
  "list_all has_kanji [konban, kesa, taberu]
   \<and> konban \<in> set [konban, kesa, taberu] \<and> kesa \<in> set [konban, kesa, taberu] \<and> konban \<noteq> kesa
   \<and> 0x4ECA \<in> set konban \<and> 0x4ECA \<in> set kesa \<and> has_kanji [0x4ECA]
   \<and> (\<exists>rel sx sy. relate_words [konban, kesa, taberu] (separate_words [konban, kesa, taberu]) = Inr rel
          \<and> map_of rel konban = Some sx \<and> kesa \<in> sx \<and> map_of rel kesa = Some sy \<and> konban \<in> sy)"
proof -
  have hl: "list_all has_kanji [konban, kesa, taberu]" by (simp add: has_kanji_iff)
  have h: "\<forall>w\<in>set [konban, kesa, taberu]. has_kanji w" by (simp add: has_kanji_iff)
  have a: "konban \<in> set [konban, kesa, taberu]" "kesa \<in> set [konban, kesa, taberu]"
    "konban \<noteq> kesa" "0x4ECA \<in> set konban" "0x4ECA \<in> set kesa" "has_kanji [0x4ECA]"
    by (simp_all add: has_kanji_char)
  from relate_words_symmetric [OF h a] h a show ?thesis using hl by blast
qed

text \<open>
  C8.  \<open>separate_words\<close> of a sequence and of any permutation of it are equal as
  mappings: the same keys, each with the same set of words.  (As association lists
  they may differ in the order of the keys, as the witness shows.)
\<close>

theorem separate_words_permutation:
  assumes "mset ws = mset ws'"
  shows "map_of (separate_words ws) = map_of (separate_words ws')"
proof -
  from assms have "set ws = set ws'" by (rule mset_eq_setD)
  then show ?thesis by (intro ext) (simp add: map_of_separate_words)
qed

theorem separate_words_permutation_witness:
  "mset [kesa, konban, taberu] = mset [taberu, kesa, konban]
   \<and> map_of (separate_words [kesa, konban, taberu]) = map_of (separate_words [taberu, kesa, konban])
   \<and> separate_words [kesa, konban, taberu]
       = [([0x4ECA], {kesa, konban}), ([0x671D], {kesa}), ([0x6669], {konban}), ([0x98DF], {taberu})]
   \<and> separate_words [taberu, kesa, konban]
       = [([0x98DF], {taberu}), ([0x4ECA], {kesa, konban}), ([0x671D], {kesa}), ([0x6669], {konban})]"
proof -
  have h: "mset [kesa, konban, taberu] = mset [taberu, kesa, konban]" by simp
  have 1: "separate_words [kesa, konban, taberu]
       = [([0x4ECA], {kesa, konban}), ([0x671D], {kesa}), ([0x6669], {konban}), ([0x98DF], {taberu})]"
    by (simp add: separate_words_def add_word_def dict_get_def has_kanji_char insert_commute)
  have 2: "separate_words [taberu, kesa, konban]
       = [([0x98DF], {taberu}), ([0x4ECA], {kesa, konban}), ([0x671D], {kesa}), ([0x6669], {konban})]"
    by (simp add: separate_words_def add_word_def dict_get_def has_kanji_char insert_commute)
  from h separate_words_permutation [OF h] 1 2 show ?thesis by blast
qed

text \<open>
  C9.  For every sequence of words that all contain a logographic character, duplicates
  allowed, the keys of the dictionary \<open>relate_words\<close> returns are exactly the distinct
  words of the sequence, each once, and a word that shares no logographic character with
  any other word is kept as a key with the empty set as its value.
\<close>

theorem relate_words_keys:
  assumes "\<forall>w\<in>set ws. has_kanji w"
  shows "\<exists>rel. relate_words ws (separate_words ws) = Inr rel
           \<and> fst ` set rel = set ws \<and> distinct (map fst rel)
           \<and> length rel = card (set ws)
           \<and> (\<forall>w\<in>set ws. (\<forall>v\<in>set ws. v \<noteq> w \<longrightarrow> \<not> (\<exists>c\<in>set w. has_kanji [c] \<and> c \<in> set v))
                 \<longrightarrow> map_of rel w = Some {})"
proof -
  from relate_separate_words_map_of [OF assms] obtain rel where
    r: "relate_words ws (separate_words ws) = Inr rel"
       "map fst rel = map fst (init_related ws [])"
       "\<forall>w\<in>set ws. map_of rel w = Some ({v \<in> set ws. \<exists>c\<in>set w. has_kanji [c] \<and> c \<in> set v} - {w})"
    by blast
  have d: "distinct (map fst rel)" using r(2) by (simp add: distinct_init_related)
  have "set (map fst rel) = set (map fst (init_related ws []))" using r(2) by simp
  then have k: "fst ` set rel = set ws" by (simp add: keys_init_related)
  have "card (set (map fst rel)) = length (map fst rel)" using d by (rule distinct_card)
  then have l: "length rel = card (set ws)" using k by simp
  have "\<forall>w\<in>set ws. (\<forall>v\<in>set ws. v \<noteq> w \<longrightarrow> \<not> (\<exists>c\<in>set w. has_kanji [c] \<and> c \<in> set v))
                 \<longrightarrow> map_of rel w = Some {}"
  proof (intro ballI impI)
    fix w assume w: "w \<in> set ws"
      and n: "\<forall>v\<in>set ws. v \<noteq> w \<longrightarrow> \<not> (\<exists>c\<in>set w. has_kanji [c] \<and> c \<in> set v)"
    then have "{v \<in> set ws. \<exists>c\<in>set w. has_kanji [c] \<and> c \<in> set v} - {w} = {}" by blast
    with r(3) w show "map_of rel w = Some {}" by simp
  qed
  with r(1) k d l show ?thesis by blast
qed

theorem relate_words_keys_witness:
  "list_all has_kanji [kesa, tanoshii, kesa]
   \<and> relate_words [kesa, tanoshii, kesa] (separate_words [kesa, tanoshii, kesa])
       = Inr [(kesa, {}), (tanoshii, {})]"
proof -
  have hl: "list_all has_kanji [kesa, tanoshii, kesa]" by (simp add: has_kanji_iff)
  have h: "\<forall>w\<in>set [kesa, tanoshii, kesa]. has_kanji w" by (simp add: has_kanji_iff)
  from relate_words_keys [OF h] obtain rel where
    r: "relate_words [kesa, tanoshii, kesa] (separate_words [kesa, tanoshii, kesa]) = Inr rel"
    by blast
  have "relate_words [kesa, tanoshii, kesa] (separate_words [kesa, tanoshii, kesa])
       = Inr [(kesa, {}), (tanoshii, {})]"
    by (simp add: relate_words_def accumulate_related_def separate_words_def add_word_def
        dict_get_def has_kanji_char insert_commute)
  with h r show ?thesis using hl by simp
qed

end
